theory Spec2Isabelle
  imports Main "HOL-Library.Sublist"
begin

section \<open>Strings\<close>

text \<open>
  A Go string is modelled as an Isabelle \<open>string\<close>, one \<open>char\<close> per character. The POSIX
  flavor and the path algebra work on bytes only, so there a \<open>char\<close> is a byte. The Windows
  flavor converts its input with \<^verbatim>\<open>[]rune(path)\<close> and back with \<^verbatim>\<open>string(runes)\<close>; on ASCII
  text both conversions are the identity and a byte offset is a rune offset, which is how the
  model reads them. \<^verbatim>\<open>utf8.RuneError\<close>, the value of \<^verbatim>\<open>first\<close>, \<^verbatim>\<open>second\<close> and \<^verbatim>\<open>third\<close> when the
  input is too short, is \<open>None\<close>. Integers that can be \<open>-1\<close> are \<open>int\<close>.
\<close>

abbreviation BSL :: char where
  "BSL \<equiv> CHR 0x5C"

text \<open>\<^verbatim>\<open>strings.Index(s, sub)\<close>: the first offset at which \<open>sub\<close> occurs, or \<open>-1\<close>.\<close>

fun strings_Index_from :: "nat \<Rightarrow> string \<Rightarrow> string \<Rightarrow> int" where
  "strings_Index_from k [] sub = (if sub = [] then int k else -1)"
| "strings_Index_from k (c # cs) sub =
     (if take (length sub) (c # cs) = sub then int k else strings_Index_from (Suc k) cs sub)"

definition strings_Index :: "string \<Rightarrow> string \<Rightarrow> int" where
  "strings_Index s sub = strings_Index_from 0 s sub"

text \<open>\<^verbatim>\<open>strings.LastIndex(s, sub)\<close>: the last offset at which \<open>sub\<close> occurs, or \<open>-1\<close>.\<close>

fun strings_LastIndex :: "string \<Rightarrow> string \<Rightarrow> int" where
  "strings_LastIndex [] sub = (if sub = [] then 0 else -1)"
| "strings_LastIndex (c # cs) sub =
     (let r = strings_LastIndex cs sub in
      if 0 \<le> r then r + 1
      else if take (length sub) (c # cs) = sub then 0 else -1)"

definition strings_HasPrefix :: "string \<Rightarrow> string \<Rightarrow> bool" where
  "strings_HasPrefix s p = (take (length p) s = p)"

definition strings_TrimLeft :: "string \<Rightarrow> string \<Rightarrow> string" where
  "strings_TrimLeft s cutset = dropWhile (\<lambda>c. List.member cutset c) s"

text \<open>
  \<^verbatim>\<open>strings.Replace(s, old, new, -1)\<close> for a non-empty \<open>old\<close> (the parser calls it only
  behind the guard \<^verbatim>\<open>flavor.AltSeparator() != ""\<close>).
\<close>

function strings_Replace :: "string \<Rightarrow> string \<Rightarrow> string \<Rightarrow> string" where
  "strings_Replace [] old new = []"
| "strings_Replace (c # cs) old new =
     (if old \<noteq> [] \<and> take (length old) (c # cs) = old
      then new @ strings_Replace (drop (length old) (c # cs)) old new
      else c # strings_Replace cs old new)"
  by pat_completeness auto
termination
  by (relation "measure (\<lambda>(s, old, new). length s)") auto

text \<open>\<^verbatim>\<open>strings.Join(elems, sep)\<close>.\<close>

fun strings_Join :: "string list \<Rightarrow> string \<Rightarrow> string" where
  "strings_Join [] sep = []"
| "strings_Join [x] sep = x"
| "strings_Join (x # y # ys) sep = x @ sep @ strings_Join (y # ys) sep"

text \<open>\<^verbatim>\<open>strings.ToLower\<close> on ASCII text: the letters \<open>A\<close> to \<open>Z\<close> move to \<open>a\<close> to \<open>z\<close>.\<close>

definition toLower_char :: "char \<Rightarrow> char" where
  "toLower_char c =
     (let n = (of_char c :: nat) in if 65 \<le> n \<and> n \<le> 90 then char_of (n + 32) else c)"

definition strings_ToLower :: "string \<Rightarrow> string" where
  "strings_ToLower s = map toLower_char s"

section \<open>Flavors (flavor.go)\<close>

datatype flavor = Posix | Windows

fun Separator :: "flavor \<Rightarrow> string" where
  "Separator Posix = ''/''"
| "Separator Windows = [BSL]"

fun AltSeparator :: "flavor \<Rightarrow> string" where
  "AltSeparator Posix = ''''"
| "AltSeparator Windows = ''/''"

fun HasDrive :: "flavor \<Rightarrow> bool" where
  "HasDrive Posix = False"
| "HasDrive Windows = True"

definition posix_SplitRoot :: "string \<Rightarrow> string \<times> string \<times> string" where
  "posix_SplitRoot path =
     (if 0 < length path \<and> take 1 path = ''/'' then
        (let stripped = strings_TrimLeft path ''/'' in
         if int (length path) - int (length stripped) = 2 then ('''', ''//'', stripped)
         else ('''', ''/'', stripped))
      else ('''', '''', path))"

definition windowsDriveLetters :: string where
  "windowsDriveLetters = ''abcdefghijklmnopqrstuvwxyzABCDEFGHIJKLMNOPQRSTUVWXYZ''"

text \<open>The search loop of \<^verbatim>\<open>runesIndexOffset\<close>: \<open>idx\<close> stays \<open>-1\<close> when \<open>r\<close> is not found.\<close>

fun runes_scan :: "string \<Rightarrow> char \<Rightarrow> nat \<Rightarrow> int" where
  "runes_scan [] r i = -1"
| "runes_scan (c # cs) r i = (if c = r then int i else runes_scan cs r (Suc i))"

definition runesIndexOffset :: "string \<Rightarrow> char \<Rightarrow> int \<Rightarrow> int" where
  "runesIndexOffset runes r offset =
     (if int (length runes) - 1 \<le> offset then -1
      else (let idx = runes_scan (drop (nat offset) runes) r 0 in idx + offset))"

text \<open>The tail of \<^verbatim>\<open>windowsFlavor.SplitRoot\<close>, from \<^verbatim>\<open>drv, root := "", ""\<close> on.\<close>

definition windows_SplitRoot_rest ::
  "string \<Rightarrow> string \<Rightarrow> char option \<Rightarrow> char option \<Rightarrow> char option \<Rightarrow> string \<times> string \<times> string" where
  "windows_SplitRoot_rest pre runes first second third =
     (let (drv, runes1, first1) =
            (if second = Some CHR '':'' \<and>
                (case first of None \<Rightarrow> False | Some c \<Rightarrow> List.member windowsDriveLetters c)
             then (take 2 runes, drop 2 runes, third)
             else ('''', runes, first));
          (rt, runes2) =
            (if first1 = Some BSL then ([BSL], dropWhile (\<lambda>c. c = BSL) runes1)
             else ('''', runes1))
      in (pre @ drv, rt, runes2))"

definition windows_SplitRoot :: "string \<Rightarrow> string \<times> string \<times> string" where
  "windows_SplitRoot path0 =
     (let sep = BSL;
          (pre, path) =
            (if strings_HasPrefix path0 [BSL, BSL, CHR ''?'', BSL] then
               (if strings_HasPrefix (drop 4 path0) (''UNC'' @ [BSL])
                then (take 7 path0, BSL # drop 7 path0)
                else (take 4 path0, drop 4 path0))
             else ('''', path0));
          runes = path;
          first = (if 0 < length runes then Some (runes ! 0) else None);
          second = (if 1 < length runes then Some (runes ! 1) else None);
          third = (if 2 < length runes then Some (runes ! 2) else None)
      in
      if second = Some sep \<and> first = Some sep \<and> third \<noteq> Some sep then
        (let index = runesIndexOffset runes sep 2 in
         if index \<noteq> -1 then
           (let index2 = runesIndexOffset runes sep (index + 1) in
            if index2 \<noteq> index + 1 then
              (let index2' = (if index2 = -1 then int (length runes) else index2);
                   p = (if index2' + 1 \<le> int (length runes)
                        then drop (nat (index2' + 1)) runes else '''')
               in if pre \<noteq> ''''
                  then (pre @ drop 1 (take (nat index2') runes), [sep], p)
                  else (take (nat index2') runes, [sep], p))
            else windows_SplitRoot_rest pre runes first second third)
         else windows_SplitRoot_rest pre runes first second third)
      else windows_SplitRoot_rest pre runes first second third)"

fun SplitRoot :: "flavor \<Rightarrow> string \<Rightarrow> string \<times> string \<times> string" where
  "SplitRoot Posix path = posix_SplitRoot path"
| "SplitRoot Windows path = windows_SplitRoot path"

fun Casefold :: "flavor \<Rightarrow> string \<Rightarrow> string" where
  "Casefold Posix s = s"
| "Casefold Windows s = strings_ToLower s"

text \<open>
  The value \<^verbatim>\<open>CasefoldParts\<close> returns. The Windows flavor also writes it into the slice it
  was given; that effect is modelled in the section on slices below.
\<close>

fun CasefoldParts :: "flavor \<Rightarrow> string list \<Rightarrow> string list" where
  "CasefoldParts Posix ps = ps"
| "CasefoldParts Windows ps = map strings_ToLower ps"

section \<open>Parsing (pure\_path.go)\<close>

record PurePath =
  parts :: "string list"
  drive :: string
  root :: string
  flavor :: flavor

text \<open>
  The inner \<^verbatim>\<open>for\<close> loop of \<^verbatim>\<open>parseParts\<close>: it cuts \<open>prel\<close> at each separator and appends
  the pieces that are neither empty nor a single dot.
\<close>

function parseParts_scan :: "string \<Rightarrow> string \<Rightarrow> string list \<Rightarrow> string list" where
  "parseParts_scan sep prel ps =
     (let i = strings_Index prel sep in
      if 0 \<le> i then
        (let pp = take (nat i) prel;
             ps' = (if pp \<noteq> '''' \<and> pp \<noteq> ''.'' then ps @ [pp] else ps)
         in if int (length prel) - 1 \<le> i then ps'
            else parseParts_scan sep (drop (nat i + 1) prel) ps')
      else (if prel \<noteq> '''' \<and> prel \<noteq> ''.'' then ps @ [prel] else ps))"
  by pat_completeness auto
termination
  by (relation "measure (\<lambda>(sep, prel, ps). length prel)") auto

text \<open>One round of the outer loop of \<^verbatim>\<open>parseParts\<close>, on the accumulated triple.\<close>

fun parseParts_step ::
  "flavor \<Rightarrow> string \<times> string \<times> string list \<Rightarrow> string \<Rightarrow> string \<times> string \<times> string list" where
  "parseParts_step f (drv, rt, ps) part =
     (if part = '''' then (drv, rt, ps)
      else
        (let part' = (if AltSeparator f \<noteq> ''''
                      then strings_Replace part (AltSeparator f) (Separator f) else part);
             (pdrive, proot, prel) = SplitRoot f part';
             (drv', rt', ps') =
               (if pdrive \<noteq> '''' then (pdrive, proot, [pdrive @ proot])
                else if proot \<noteq> '''' then (drv, proot, [drv @ proot])
                else (drv, rt, ps))
         in (drv', rt', parseParts_scan (Separator f) prel ps')))"

definition parseParts :: "string list \<Rightarrow> flavor \<Rightarrow> string \<times> string \<times> string list" where
  "parseParts paths f = foldl (parseParts_step f) ('''', '''', []) paths"

definition newPurePathWithFlavor :: "flavor \<Rightarrow> string list \<Rightarrow> PurePath" where
  "newPurePathWithFlavor f paths =
     (case parseParts paths f of
        (drv, rt, ps) \<Rightarrow> \<lparr>parts = ps, drive = drv, root = rt, flavor = f\<rparr>)"

definition newPurePathFromParts :: "flavor \<Rightarrow> string \<Rightarrow> string \<Rightarrow> string list \<Rightarrow> PurePath" where
  "newPurePathFromParts f drv rt ps = \<lparr>parts = ps, drive = drv, root = rt, flavor = f\<rparr>"

section \<open>Path algebra (pure\_path.go)\<close>

definition Name :: "PurePath \<Rightarrow> string" where
  "Name p =
     (if length (parts p) = 0 \<or> ((drive p \<noteq> '''' \<or> root p \<noteq> '''') \<and> length (parts p) = 1)
      then '''' else parts p ! (length (parts p) - 1))"

definition Suffix :: "PurePath \<Rightarrow> string" where
  "Suffix p =
     (let name = Name p; i = strings_LastIndex name ''.'' in
      if 0 < i \<and> i < int (length name) - 1 then drop (nat i) name else '''')"

definition Stem :: "PurePath \<Rightarrow> string" where
  "Stem p =
     (let name = Name p; i = strings_LastIndex name ''.'' in
      if 0 < i \<and> i < int (length name) - 1 then take (nat i) name else name)"

text \<open>
  \<^verbatim>\<open>String\<close> slices \<^verbatim>\<open>p.parts[1:]\<close> on an anchored path. Every path the package builds has
  its anchor as first part, so the slice is in range there (\<open>drop 1\<close>); an anchored path
  without parts, on which Go would panic, is not a value the package can produce.
\<close>

definition String :: "PurePath \<Rightarrow> string" where
  "String p =
     (if drive p \<noteq> '''' \<or> root p \<noteq> ''''
      then drive p @ root p @ strings_Join (drop 1 (parts p)) (Separator (flavor p))
      else if length (parts p) = 0 then ''.''
      else strings_Join (parts p) (Separator (flavor p)))"

definition Join :: "PurePath \<Rightarrow> string list \<Rightarrow> PurePath" where
  "Join p paths = newPurePathWithFlavor (flavor p) ([String p] @ paths)"

definition JoinPath :: "PurePath \<Rightarrow> PurePath list \<Rightarrow> PurePath" where
  "JoinPath p paths = Join p (map String paths)"

definition Parent :: "PurePath \<Rightarrow> PurePath" where
  "Parent p =
     (if length (parts p) = 0 then \<lparr>parts = [], drive = '''', root = '''', flavor = flavor p\<rparr>
      else if length (parts p) = 1 \<and> (drive p \<noteq> '''' \<or> root p \<noteq> '''') then p
      else newPurePathFromParts (flavor p) (drive p) (root p)
             (take (length (parts p) - 1) (parts p)))"

definition IsAbsolute :: "PurePath \<Rightarrow> bool" where
  "IsAbsolute p = (if root p = '''' then False else (\<not> HasDrive (flavor p) \<or> drive p \<noteq> ''''))"

datatype error =
    ErrNoOtherPath
  | ErrNotRelative
  | ErrDoesNotImplement string string
  | ErrLstatNotPossible string
  | ErrDirectoryEmpty
  | ErrNotExist
  | ErrIO string

text \<open>
  \<^verbatim>\<open>absParts\<close> and \<^verbatim>\<open>toAbsParts\<close> of \<^verbatim>\<open>RelativeTo\<close>: with a root, the drive and the root are
  two elements of their own in front of the segments.
\<close>

definition absParts :: "PurePath \<Rightarrow> string list" where
  "absParts p = (if root p \<noteq> '''' then [drive p, root p] @ drop 1 (parts p) else parts p)"

function casefoldComp_loop :: "string list \<Rightarrow> string list \<Rightarrow> nat \<Rightarrow> nat \<Rightarrow> bool" where
  "casefoldComp_loop tp ops i l =
     (if i < l then (if tp ! i \<noteq> ops ! i then False else casefoldComp_loop tp ops (Suc i) l)
      else True)"
  by pat_completeness auto
termination
  by (relation "measure (\<lambda>(tp, ops, i, l). l - i)") auto

definition casefoldComp :: "flavor \<Rightarrow> string list \<Rightarrow> string list \<Rightarrow> bool" where
  "casefoldComp f tp ops =
     (if length tp < length ops then False
      else (let tp1 = take (length ops) tp;
                l = length tp1;
                tp2 = CasefoldParts f tp1;
                ops2 = CasefoldParts f ops
            in casefoldComp_loop tp2 ops2 0 l))"

definition RelativeTo :: "PurePath \<Rightarrow> string list \<Rightarrow> error + PurePath" where
  "RelativeTo p others =
     (if length others = 0 then Inl ErrNoOtherPath
      else
        (let abs_parts = absParts p;
             toPath = newPurePathWithFlavor (flavor p) others;
             toAbsParts = absParts toPath;
             n = length toAbsParts
         in if n = 0 \<and> (drive p \<noteq> '''' \<or> root p \<noteq> '''') then Inl ErrNotRelative
            else if n \<noteq> 0 \<and> \<not> casefoldComp (flavor p) abs_parts toAbsParts then Inl ErrNotRelative
            else Inr (newPurePathFromParts (flavor p) ''''
                        (if n \<noteq> 1 then '''' else root p) (drop n abs_parts))))"

text \<open>
  \<^verbatim>\<open>filepath.Match\<close> belongs to the Go standard library; it is the parameter \<open>glob\<close>, with
  \<open>None\<close> for its error \<^verbatim>\<open>ErrBadPattern\<close>. The loop of \<^verbatim>\<open>Match\<close> walks the pattern's parts
  from the last to the first; \<open>i\<close> counts the pattern parts still to do and \<open>parti\<close> is the
  index into the path's parts. An index out of range, where Go panics, gives \<open>None\<close>.
\<close>

fun Match_loop ::
  "(string \<Rightarrow> string \<Rightarrow> bool option) \<Rightarrow> string list \<Rightarrow> string list \<Rightarrow> nat \<Rightarrow> int \<Rightarrow> bool option" where
  "Match_loop glob patParts ps 0 parti = Some True"
| "Match_loop glob patParts ps (Suc i) parti =
     (if parti < 0 \<or> int (length ps) \<le> parti then None
      else (case glob (patParts ! i) (ps ! nat parti) of
              Some True \<Rightarrow> Match_loop glob patParts ps i (parti - 1)
            | _ \<Rightarrow> Some False))"

text \<open>\<^verbatim>\<open>Match\<close> from the line after \<^verbatim>\<open>parts := p.flavor.CasefoldParts(p.parts)\<close> on.\<close>

definition Match_tail ::
  "(string \<Rightarrow> string \<Rightarrow> bool option) \<Rightarrow> string \<Rightarrow> string \<Rightarrow> string list \<Rightarrow> string list \<Rightarrow> bool option" where
  "Match_tail glob patDrive patRoot patParts ps =
     (if patDrive \<noteq> '''' \<or> patRoot \<noteq> '''' then
        (if length patParts \<noteq> length ps then Some False
         else Match_loop glob (drop 1 patParts) ps (length (drop 1 patParts))
                (int (length ps) - 1))
      else if length ps < length patParts then Some False
      else Match_loop glob patParts ps (length patParts) (int (length ps) - 1))"

definition Match :: "(string \<Rightarrow> string \<Rightarrow> bool option) \<Rightarrow> PurePath \<Rightarrow> string \<Rightarrow> bool option" where
  "Match glob p pattern0 =
     (let pattern = Casefold (flavor p) pattern0 in
      case parseParts [pattern] (flavor p) of
        (patDrive, patRoot, patParts) \<Rightarrow>
          if length patParts = 0 then Some False
          else if patDrive \<noteq> '''' \<and> patDrive \<noteq> Casefold (flavor p) (drive p) then Some False
          else if patRoot \<noteq> '''' \<and> patRoot \<noteq> Casefold (flavor p) (root p) then Some False
          else Match_tail glob patDrive patRoot patParts (CasefoldParts (flavor p) (parts p)))"

section \<open>Slices and their backing arrays\<close>

text \<open>
  A Go slice is a view of a backing array, and a \<^verbatim>\<open>PurePath\<close> passed by value still shares
  the array of its \<^verbatim>\<open>parts\<close>. Where that matters the arrays live in a store, by address; a
  slice is the address of its array, the offset of its first element and its length, and
  \<open>PurePathS\<close> is the \<^verbatim>\<open>PurePath\<close> struct with the slice header in place of the contents.
\<close>

type_synonym store = "nat \<Rightarrow> string list"

record slice =
  array :: nat
  offset :: nat
  len :: nat

record PurePathS =
  partsS :: slice
  driveS :: string
  rootS :: string
  flavorS :: flavor

definition slice_load :: "store \<Rightarrow> slice \<Rightarrow> string list" where
  "slice_load h s = take (len s) (drop (offset s) (h (array s)))"

definition slice_store :: "store \<Rightarrow> slice \<Rightarrow> nat \<Rightarrow> string \<Rightarrow> store" where
  "slice_store h s i v = h(array s := (h (array s))[offset s + i := v])"

definition load :: "store \<Rightarrow> PurePathS \<Rightarrow> PurePath" where
  "load h p =
     \<lparr>parts = slice_load h (partsS p), drive = driveS p, root = rootS p, flavor = flavorS p\<rparr>"

text \<open>
  \<^verbatim>\<open>windowsFlavor.CasefoldParts\<close> assigns \<^verbatim>\<open>parts[i] = strings.ToLower(parts[i])\<close> for every
  index of the slice it is given and returns that slice; \<open>k\<close> counts the rounds left. The
  POSIX flavor returns the slice untouched.
\<close>

fun CasefoldParts_loop :: "store \<Rightarrow> slice \<Rightarrow> nat \<Rightarrow> nat \<Rightarrow> store" where
  "CasefoldParts_loop h s i 0 = h"
| "CasefoldParts_loop h s i (Suc k) =
     CasefoldParts_loop (slice_store h s i (strings_ToLower (slice_load h s ! i))) s (Suc i) k"

fun CasefoldParts_st :: "flavor \<Rightarrow> store \<Rightarrow> slice \<Rightarrow> slice \<times> store" where
  "CasefoldParts_st Posix h s = (s, h)"
| "CasefoldParts_st Windows h s = (s, CasefoldParts_loop h s 0 (len s))"

text \<open>\<^verbatim>\<open>Match\<close> on a path whose parts are in the store: the result and the store after.\<close>

definition Match_st ::
  "(string \<Rightarrow> string \<Rightarrow> bool option) \<Rightarrow> store \<Rightarrow> PurePathS \<Rightarrow> string \<Rightarrow> bool option \<times> store" where
  "Match_st glob h p pattern0 =
     (let pattern = Casefold (flavorS p) pattern0 in
      case parseParts [pattern] (flavorS p) of
        (patDrive, patRoot, patParts) \<Rightarrow>
          if length patParts = 0 then (Some False, h)
          else if patDrive \<noteq> '''' \<and> patDrive \<noteq> Casefold (flavorS p) (driveS p)
          then (Some False, h)
          else if patRoot \<noteq> '''' \<and> patRoot \<noteq> Casefold (flavorS p) (rootS p)
          then (Some False, h)
          else (case CasefoldParts_st (flavorS p) h (partsS p) of
                  (ps, h') \<Rightarrow>
                    (Match_tail glob patDrive patRoot patParts (slice_load h' ps), h')))"

section \<open>Paths bound to a filesystem (path.go)\<close>

text \<open>
  The filesystem is a collaborator behind the \<^verbatim>\<open>afero.Fs\<close> interface. The model keeps what
  the functions below ask of it, as functions of the path string: \<open>lstater\<close> and
  \<open>linkReader\<close> are \<open>None\<close> when the filesystem does not implement \<^verbatim>\<open>afero.Lstater\<close> or
  \<^verbatim>\<open>afero.LinkReader\<close>; \<^verbatim>\<open>LstatIfPossible\<close> gives the file information or an error, and
  whether lstat was called; \<open>readdirnames\<close> stands for \<^verbatim>\<open>Open\<close> followed by
  \<^verbatim>\<open>Readdirnames(-1)\<close>. A modification time is an \<open>int\<close>, \<open>0\<close> for Go's zero time.
\<close>

record FileInfo =
  isSymlinkMode :: bool
  modTime :: int

record Fs =
  fsName :: string
  lstater :: "(string \<Rightarrow> (error + FileInfo) \<times> bool) option"
  linkReader :: "(string \<Rightarrow> error + string) option"
  stat :: "string \<Rightarrow> error + FileInfo"
  readdirnames :: "string \<Rightarrow> error + string list"

record Path =
  purePath :: PurePath
  fs :: Fs
  DefaultFileMode :: nat
  DefaultDirMode :: nat

text \<open>
  \<^verbatim>\<open>newPathWithFlavor\<close> fills the two default modes from the package constants
  \<^verbatim>\<open>DefaultFileMode\<close> and \<^verbatim>\<open>DefaultDirMode\<close>, which are declared outside the files at hand;
  they are the parameters \<open>fileMode\<close> and \<open>dirMode\<close>. The same holds for the error values
  \<^verbatim>\<open>ErrDoesNotImplement\<close>, \<^verbatim>\<open>ErrLstatNotPossible\<close> and \<^verbatim>\<open>ErrDirectoryEmpty\<close>, which are
  constructors of \<open>error\<close>; the first two carry what the message is formatted from.
\<close>

definition newPathWithFlavor :: "flavor \<Rightarrow> Fs \<Rightarrow> nat \<Rightarrow> nat \<Rightarrow> string list \<Rightarrow> Path" where
  "newPathWithFlavor f fsys fileMode dirMode paths =
     (case parseParts paths f of
        (drv, rt, ps) \<Rightarrow>
          \<lparr>purePath = \<lparr>parts = ps, drive = drv, root = rt, flavor = f\<rparr>,
           fs = fsys,
           DefaultFileMode = fileMode,
           DefaultDirMode = dirMode\<rparr>)"

text \<open>\<^verbatim>\<open>String\<close> of a \<^verbatim>\<open>Path\<close> is the method of the \<^verbatim>\<open>PurePath\<close> it embeds.\<close>

definition Path_String :: "Path \<Rightarrow> string" where
  "Path_String p = String (purePath p)"

definition copyPathWithPaths :: "Path \<Rightarrow> string list \<Rightarrow> Path" where
  "copyPathWithPaths copyFrom paths =
     \<lparr>purePath = newPurePathWithFlavor (flavor (purePath copyFrom)) paths,
      fs = fs copyFrom,
      DefaultFileMode = DefaultFileMode copyFrom,
      DefaultDirMode = DefaultDirMode copyFrom\<rparr>"

definition copyPathWithPurePath :: "Path \<Rightarrow> PurePath \<Rightarrow> Path" where
  "copyPathWithPurePath copyFrom pp =
     \<lparr>purePath = pp,
      fs = fs copyFrom,
      DefaultFileMode = DefaultFileMode copyFrom,
      DefaultDirMode = DefaultDirMode copyFrom\<rparr>"

definition Path_Join :: "Path \<Rightarrow> string list \<Rightarrow> Path" where
  "Path_Join p paths = copyPathWithPurePath p (Join (purePath p) paths)"

definition Path_JoinPath :: "Path \<Rightarrow> Path list \<Rightarrow> Path" where
  "Path_JoinPath p paths = Path_Join p (map (\<lambda>q. String (purePath q)) paths)"

definition Path_Parent :: "Path \<Rightarrow> Path" where
  "Path_Parent p = copyPathWithPurePath p (Parent (purePath p))"

definition doesNotImplementErr :: "Path \<Rightarrow> string \<Rightarrow> error" where
  "doesNotImplementErr p interfaceName = ErrDoesNotImplement (fsName (fs p)) interfaceName"

definition Lstat :: "Path \<Rightarrow> error + FileInfo" where
  "Lstat p =
     (case lstater (fs p) of
        None \<Rightarrow> Inl (doesNotImplementErr p ''afero.Lstater'')
      | Some lstatIfPossible \<Rightarrow>
          (case lstatIfPossible (String (purePath p)) of
             (Inr st, lstatCalled) \<Rightarrow>
               if lstatCalled then Inr st else Inl (ErrLstatNotPossible (fsName (fs p)))
           | (Inl err, lstatCalled) \<Rightarrow> Inl err))"

definition IsSymlink :: "Path \<Rightarrow> error + bool" where
  "IsSymlink p = (case Lstat p of Inl err \<Rightarrow> Inl err | Inr fileInfo \<Rightarrow> Inr (isSymlinkMode fileInfo))"

definition Readlink :: "Path \<Rightarrow> error + Path" where
  "Readlink p =
     (case linkReader (fs p) of
        None \<Rightarrow> Inl (doesNotImplementErr p ''afero.LinkReader'')
      | Some readlinkIfPossible \<Rightarrow>
          (case readlinkIfPossible (String (purePath p)) of
             Inl err \<Rightarrow> Inl err
           | Inr resolvedPathStr \<Rightarrow> Inr (copyPathWithPaths p [resolvedPathStr])))"

definition resolveIfSymlink :: "Path \<Rightarrow> Path \<times> bool \<times> error option" where
  "resolveIfSymlink path =
     (case IsSymlink path of
        Inl err \<Rightarrow> (path, False, Some err)
      | Inr isSymlink \<Rightarrow>
          if isSymlink then
            (case Readlink path of
               Inl err \<Rightarrow> (path, isSymlink, Some err)
             | Inr resolvedPath \<Rightarrow> (resolvedPath, isSymlink, None))
          else (path, isSymlink, None))"

text \<open>
  \<^verbatim>\<open>resolveAllHelper\<close>. Its \<^verbatim>\<open>for\<close> loop leaves in one of three ways: it returns the path
  with an error, it calls \<^verbatim>\<open>resolveAllHelper\<close> on a new path, or it runs to its end. The loop
  is \<open>resolveAllHelper_loop\<close>, with \<open>k\<close> the number of rounds left. The recursion follows the
  links, which may form a cycle, so each call takes one unit of fuel and \<open>None\<close> is the call
  that does not return.
\<close>

datatype loop_exit = ReturnErr error | Recurse Path | LoopEnd

definition componentPath :: "Path \<Rightarrow> nat \<Rightarrow> Path" where
  "componentPath path i = copyPathWithPaths path (take (i + 1) (parts (purePath path)))"

fun resolveAllHelper_loop :: "Path \<Rightarrow> nat \<Rightarrow> nat \<Rightarrow> loop_exit" where
  "resolveAllHelper_loop path i 0 = LoopEnd"
| "resolveAllHelper_loop path i (Suc k) =
     (let rightOfComponent = drop (i + 1) (parts (purePath path)) in
      case resolveIfSymlink (componentPath path i) of
        (resolved, isSymlink, Some err) \<Rightarrow> ReturnErr err
      | (resolved, isSymlink, None) \<Rightarrow>
          if isSymlink then
            (if IsAbsolute (purePath resolved)
             then Recurse (Path_Join resolved rightOfComponent)
             else Recurse (Path_Join (Path_JoinPath (Path_Parent (componentPath path i)) [resolved])
                             rightOfComponent))
          else resolveAllHelper_loop path (Suc i) k)"

fun resolveAllHelper :: "nat \<Rightarrow> Path \<Rightarrow> (Path \<times> error option) option" where
  "resolveAllHelper 0 path = None"
| "resolveAllHelper (Suc fuel) path =
     (case resolveAllHelper_loop path 0 (length (parts (purePath path))) of
        ReturnErr err \<Rightarrow> Some (path, Some err)
      | Recurse next \<Rightarrow> resolveAllHelper fuel next
      | LoopEnd \<Rightarrow> Some (path, None))"

definition ResolveAll :: "nat \<Rightarrow> Path \<Rightarrow> (Path \<times> error option) option" where
  "ResolveAll fuel p = resolveAllHelper fuel p"

text \<open>
  \<^verbatim>\<open>Mtime\<close> returns Go's zero time together with the error of \<^verbatim>\<open>Stat\<close>, and \<^verbatim>\<open>GetLatest\<close>
  goes on with that time when the error is \<^verbatim>\<open>os.ErrNotExist\<close>.
\<close>

definition Mtime :: "Path \<Rightarrow> int \<times> error option" where
  "Mtime p =
     (case stat (fs p) (String (purePath p)) of
        Inl err \<Rightarrow> (0, Some err)
      | Inr st \<Rightarrow> (modTime st, None))"

definition ReadDir :: "Path \<Rightarrow> error + Path list" where
  "ReadDir p =
     (case readdirnames (fs p) (String (purePath p)) of
        Inl err \<Rightarrow> Inl err
      | Inr children \<Rightarrow> Inr (map (\<lambda>child. Path_Join p [child]) children))"

definition IsNotExist :: "error \<Rightarrow> bool" where
  "IsNotExist err = (err = ErrNotExist)"

text \<open>The loop of \<^verbatim>\<open>GetLatest\<close>, \<^verbatim>\<open>for i := 1; i < len(files)-1; i++\<close>.\<close>

function GetLatest_loop :: "Path \<Rightarrow> Path list \<Rightarrow> Path \<Rightarrow> nat \<Rightarrow> error + Path" where
  "GetLatest_loop p files greatestFileSeen i =
     (if int i < int (length files) - 1 then
        (case Mtime greatestFileSeen of
           (greatestMtime, Some err) \<Rightarrow> Inl err
         | (greatestMtime, None) \<Rightarrow>
             (case Mtime (files ! i) of
                (thisMtime, Some err) \<Rightarrow>
                  if IsNotExist err
                  then GetLatest_loop p files
                         (if greatestMtime < thisMtime
                          then Path_Join p [Name (purePath (files ! i))]
                          else greatestFileSeen) (Suc i)
                  else Inl err
              | (thisMtime, None) \<Rightarrow>
                  GetLatest_loop p files
                    (if greatestMtime < thisMtime
                     then Path_Join p [Name (purePath (files ! i))]
                     else greatestFileSeen) (Suc i)))
      else Inr greatestFileSeen)"
  by pat_completeness auto
termination
  by (relation "measure (\<lambda>(p, files, g, i). length files - i)") auto

definition GetLatest :: "Path \<Rightarrow> error + Path" where
  "GetLatest p =
     (case ReadDir p of
        Inl err \<Rightarrow> Inl err
      | Inr files \<Rightarrow>
          if length files = 0 then Inl ErrDirectoryEmpty
          else GetLatest_loop p files (Path_Join p [Name (purePath (files ! 0))]) 1)"

text \<open>
  The entry with the greatest modification time, as the documentation of \<^verbatim>\<open>GetLatest\<close>
  describes it: no listed entry is newer than it.
\<close>

definition newest_of :: "Path list \<Rightarrow> Path \<Rightarrow> bool" where
  "newest_of files g = list_all (\<lambda>f. fst (Mtime f) \<le> fst (Mtime g)) files"

section \<open>Notions of the specification\<close>

text \<open>
  The specification's tokenization: the pieces of a string between the occurrences of the
  separator character, as \<^verbatim>\<open>strings.Split\<close> gives them.
\<close>

fun tokens_of :: "char \<Rightarrow> string \<Rightarrow> string list" where
  "tokens_of c [] = ['''']"
| "tokens_of c (x # xs) =
     (if x = c then [] # tokens_of c xs
      else (case tokens_of c xs of [] \<Rightarrow> [x] # [] | t # ts \<Rightarrow> (x # t) # ts))"

definition separator_char :: "flavor \<Rightarrow> char" where
  "separator_char f = (case f of Posix \<Rightarrow> CHR ''/'' | Windows \<Rightarrow> BSL)"

definition survivors :: "char \<Rightarrow> string \<Rightarrow> string list" where
  "survivors c s = filter (\<lambda>t. t \<noteq> '''' \<and> t \<noteq> ''.'') (tokens_of c s)"

text \<open>
  The specification's forms of a drive: the two-character drive-letter form, and a UNC or
  extended-length prefix, both of which begin with two separators.
\<close>

definition drive_letter_form :: "string \<Rightarrow> bool" where
  "drive_letter_form d =
     (length d = 2 \<and> List.member windowsDriveLetters (d ! 0) \<and> d ! 1 = CHR '':'')"

definition unc_or_extended_form :: "string \<Rightarrow> bool" where
  "unc_or_extended_form d = strings_HasPrefix d [BSL, BSL]"

definition drive_form :: "string \<Rightarrow> bool" where
  "drive_form d = (d = '''' \<or> drive_letter_form d \<or> unc_or_extended_form d)"




section \<open>Example values\<close>

text \<open>
  The values at which the theorems below evaluate the code. \<open>literal_glob\<close> is
  \<^verbatim>\<open>filepath.Match\<close> on patterns without meta characters, which match their own text only.
  \<open>fooStore\<close> and \<open>fooPath\<close> are what \<^verbatim>\<open>NewPureWindowsPath("Foo/Bar")\<close> holds: a backing
  array with the two parts and a slice over all of it.
\<close>

definition literal_glob :: "string \<Rightarrow> string \<Rightarrow> bool option" where
  "literal_glob pat name = Some (pat = name)"

definition fooStore :: store where
  "fooStore = (\<lambda>a. [])(0 := [''Foo'', ''Bar''])"

definition fooPath :: PurePathS where
  "fooPath = \<lparr>partsS = \<lparr>array = 0, offset = 0, len = 2\<rparr>, driveS = '''', rootS = '''',
               flavorS = Windows\<rparr>"

definition regularFile :: FileInfo where
  "regularFile = \<lparr>isSymlinkMode = False, modTime = 0\<rparr>"

definition symlinkFile :: FileInfo where
  "symlinkFile = \<lparr>isSymlinkMode = True, modTime = 0\<rparr>"

text \<open>A filesystem without \<^verbatim>\<open>afero.Lstater\<close> and \<^verbatim>\<open>afero.LinkReader\<close>.\<close>

definition noLinkFs :: Fs where
  "noLinkFs =
     \<lparr>fsName = ''MemMapFs'', lstater = None, linkReader = None,
      stat = (\<lambda>name. Inr regularFile), readdirnames = (\<lambda>name. Inr [])\<rparr>"

text \<open>A filesystem with lstat and without \<^verbatim>\<open>afero.LinkReader\<close>, where \<open>x/a\<close> is a link.\<close>

definition lstatOnlyFs :: Fs where
  "lstatOnlyFs =
     \<lparr>fsName = ''LstatFs'',
      lstater = Some (\<lambda>name. if name = ''x/a'' then (Inr symlinkFile, True)
                              else (Inr regularFile, True)),
      linkReader = None,
      stat = (\<lambda>name. Inr regularFile), readdirnames = (\<lambda>name. Inr [])\<rparr>"

text \<open>A filesystem where \<open>a\<close> is a link to \<open>c\<close>, and lstat of \<open>c\<close> fails.\<close>

definition linkFs :: Fs where
  "linkFs =
     \<lparr>fsName = ''OsFs'',
      lstater = Some (\<lambda>name. if name = ''a'' then (Inr symlinkFile, True)
                              else if name = ''c'' then (Inl (ErrIO ''permission denied''), True)
                              else (Inr regularFile, True)),
      linkReader = Some (\<lambda>name. if name = ''a'' then Inr ''c'' else Inl (ErrIO ''invalid argument'')),
      stat = (\<lambda>name. Inr regularFile), readdirnames = (\<lambda>name. Inr [])\<rparr>"

text \<open>A filesystem where \<open>a\<close> is a link to \<open>c\<close>, which is a regular file.\<close>

definition goodLinkFs :: Fs where
  "goodLinkFs =
     \<lparr>fsName = ''OsFs'',
      lstater = Some (\<lambda>name. if name = ''a'' then (Inr symlinkFile, True)
                              else (Inr regularFile, True)),
      linkReader = Some (\<lambda>name. if name = ''a'' then Inr ''c'' else Inl (ErrIO ''invalid argument'')),
      stat = (\<lambda>name. Inr regularFile), readdirnames = (\<lambda>name. Inr [])\<rparr>"

text \<open>A filesystem without links, where lstat of \<open>x/a\<close> fails.\<close>

definition ioErrorFs :: Fs where
  "ioErrorFs =
     \<lparr>fsName = ''OsFs'',
      lstater = Some (\<lambda>name. if name = ''x/a'' then (Inl (ErrIO ''permission denied''), True)
                              else (Inr regularFile, True)),
      linkReader = Some (\<lambda>name. Inl (ErrIO ''invalid argument'')),
      stat = (\<lambda>name. Inr regularFile), readdirnames = (\<lambda>name. Inr [])\<rparr>"

text \<open>A directory \<open>d\<close> with the entries \<open>a\<close>, \<open>b\<close> and \<open>c\<close>, modified at times 1, 3 and 5.\<close>

definition dirFs :: Fs where
  "dirFs =
     \<lparr>fsName = ''MemMapFs'',
      lstater = None,
      linkReader = None,
      stat = (\<lambda>name.
        if name = ''d/a'' then Inr \<lparr>isSymlinkMode = False, modTime = 1\<rparr>
        else if name = ''d/b'' then Inr \<lparr>isSymlinkMode = False, modTime = 3\<rparr>
        else if name = ''d/c'' then Inr \<lparr>isSymlinkMode = False, modTime = 5\<rparr>
        else Inl ErrNotExist),
      readdirnames = (\<lambda>name. if name = ''d'' then Inr [''a'', ''b'', ''c''] else Inl ErrNotExist)\<rparr>"

definition examplePath :: "Fs \<Rightarrow> string list \<Rightarrow> Path" where
  "examplePath fsys paths = newPathWithFlavor Posix fsys 420 493 paths"

definition dirPath :: Path where
  "dirPath = examplePath dirFs [''d'']"

text \<open>A result of \<open>ResolveAll\<close> with the path as its string.\<close>

definition result_string :: "(Path \<times> error option) option \<Rightarrow> (string \<times> error option) option" where
  "result_string r = map_option (\<lambda>(q, e). (Path_String q, e)) r"

section \<open>The tokenizing loop of the parser\<close>

lemma strings_Index_from_char:
  "strings_Index_from k s [c] =
     (if c \<in> set s then int k + int (length (takeWhile (\<lambda>x. x \<noteq> c) s)) else -1)"
  by (induction s arbitrary: k) auto

lemma strings_Index_char:
  "strings_Index s [c] = (if c \<in> set s then int (length (takeWhile (\<lambda>x. x \<noteq> c) s)) else -1)"
  by (simp add: strings_Index_def strings_Index_from_char)

lemma tokens_of_not_Nil: "tokens_of c s \<noteq> []"
  by (induction s) (auto split: list.splits)

lemma tokens_of_notin: "c \<notin> set s \<Longrightarrow> tokens_of c s = [s]"
  by (induction s) auto

lemma tokens_of_split: "c \<notin> set a \<Longrightarrow> tokens_of c (a @ c # b) = a # tokens_of c b"
  by (induction a) auto

lemma split_at_first:
  assumes "c \<in> set s"
  shows "s = takeWhile (\<lambda>x. x \<noteq> c) s @ c # drop (Suc (length (takeWhile (\<lambda>x. x \<noteq> c) s))) s"
proof -
  have "s = takeWhile (\<lambda>x. x \<noteq> c) s @ dropWhile (\<lambda>x. x \<noteq> c) s" by simp
  moreover from assms have "dropWhile (\<lambda>x. x \<noteq> c) s \<noteq> []" by auto
  moreover from assms have "hd (dropWhile (\<lambda>x. x \<noteq> c) s) = c"
    using hd_dropWhile[of "\<lambda>x. x \<noteq> c" s] by auto
  moreover have "drop (Suc (length (takeWhile (\<lambda>x. x \<noteq> c) s))) s = tl (dropWhile (\<lambda>x. x \<noteq> c) s)"
    by (simp add: dropWhile_eq_drop drop_Suc tl_drop)
  ultimately show ?thesis
    by (metis list.collapse)
qed

lemma survivors_Nil: "survivors c '''' = []"
  by (simp add: survivors_def)

lemma survivors_split:
  assumes "c \<in> set s"
  shows "survivors c s =
     (let a = takeWhile (\<lambda>x. x \<noteq> c) s in
      (if a \<noteq> '''' \<and> a \<noteq> ''.'' then [a] else []) @ survivors c (drop (Suc (length a)) s))"
proof -
  let ?a = "takeWhile (\<lambda>x. x \<noteq> c) s"
  let ?b = "drop (Suc (length ?a)) s"
  have na: "c \<notin> set ?a" by (auto dest: set_takeWhileD)
  have "tokens_of c s = tokens_of c (?a @ c # ?b)" using split_at_first[OF assms] by simp
  also have "\<dots> = ?a # tokens_of c ?b" by (rule tokens_of_split[OF na])
  finally show ?thesis by (simp add: survivors_def Let_def)
qed

lemma first_separator_lt:
  assumes "c \<in> set s"
  shows "length (takeWhile (\<lambda>x. x \<noteq> c) s) < length s"
proof -
  let ?i = "length (takeWhile (\<lambda>x. x \<noteq> c) s)"
  have "?i \<le> length s" by (rule length_takeWhile_le)
  moreover have "?i \<noteq> length s"
  proof
    assume "?i = length s"
    then have "takeWhile (\<lambda>x. x \<noteq> c) s = s" by (metis takeWhile_eq_take take_all order_refl)
    then show False using assms by (metis (mono_tags, lifting) takeWhile_eq_all_conv)
  qed
  ultimately show ?thesis by simp
qed

lemma parseParts_scan_survivors:
  "parseParts_scan [c] prel ps = ps @ survivors c prel"
proof (induction "length prel" arbitrary: prel ps rule: less_induct)
  case less
  show ?case
  proof (cases "c \<in> set prel")
    case False
    then show ?thesis
      by (subst parseParts_scan.simps)
         (simp add: strings_Index_char survivors_def tokens_of_notin)
  next
    case True
    let ?a = "takeWhile (\<lambda>x. x \<noteq> c) prel"
    let ?i = "length ?a"
    have ilt: "?i < length prel" by (rule first_separator_lt[OF True])
    have tk: "take ?i prel = ?a" by (rule takeWhile_eq_take[symmetric])
    show ?thesis
    proof (cases "int (length prel) - 1 \<le> int ?i")
      case last: True
      then have "drop (Suc ?i) prel = []" using ilt by simp
      then have "survivors c (drop (Suc ?i) prel) = []" by (simp add: survivors_def)
      with True last tk survivors_split[OF True] show ?thesis
        by (subst parseParts_scan.simps)
           (simp add: strings_Index_char Let_def)
    next
      case notlast: False
      have "length (drop (Suc ?i) prel) < length prel" using ilt by simp
      from less[OF this] True notlast tk survivors_split[OF True] show ?thesis
        by (subst parseParts_scan.simps)
           (simp add: strings_Index_char Let_def)
    qed
  qed
qed

lemma Separator_separator_char: "Separator f = [separator_char f]"
  by (cases f) (simp_all add: separator_char_def)

lemma SplitRoot_Nil: "SplitRoot f '''' = ('''', '''', '''')"
  by (cases f)
     (simp_all add: posix_SplitRoot_def windows_SplitRoot_def strings_HasPrefix_def
        windows_SplitRoot_rest_def Let_def)

lemma parseParts_snoc:
  "parseParts (paths @ [part]) f = parseParts_step f (parseParts paths f) part"
  by (simp add: parseParts_def)

lemma parseParts_step_survivors:
  assumes "SplitRoot f (if AltSeparator f \<noteq> ''''
             then strings_Replace part (AltSeparator f) (Separator f) else part) =
           (pdrive, proot, remainder)"
  shows "parseParts_step f (drv, rt, ps) part =
          (if pdrive \<noteq> ''''
           then (pdrive, proot, [pdrive @ proot] @ survivors (separator_char f) remainder)
           else if proot \<noteq> ''''
           then (drv, proot, [drv @ proot] @ survivors (separator_char f) remainder)
           else (drv, rt, ps @ survivors (separator_char f) remainder))"
proof (cases "part = ''''")
  case True
  with assms have "pdrive = '''' \<and> proot = '''' \<and> remainder = ''''"
    by (simp add: SplitRoot_Nil strings_Replace.simps(1) split: if_splits)
  with True show ?thesis by (simp add: survivors_Nil)
next
  case False
  have sc: "parseParts_scan (Separator f) remainder qs =
            qs @ survivors (separator_char f) remainder" for qs
    by (simp only: Separator_separator_char parseParts_scan_survivors)
  from False show ?thesis
    unfolding parseParts_step.simps Let_def assms prod.case sc
    by simp
qed

section \<open>The parser, one input at a time\<close>

text \<open>
  C1. For every sequence of inputs and either flavor, the parser handles the inputs from left
  to right: the result for a sequence extended by one input is obtained from the result for
  the sequence. The alternative separator is replaced first; if \<open>SplitRoot\<close> then gives a
  drive, the accumulated parts are dropped, drive and root are the input's, and the parts
  start again with the one string drive+root; if it gives no drive but a root, the
  accumulated drive stays, the root is the input's, and the parts start again with drive+root;
  otherwise nothing is reset. In each case the remainder is cut at the separator, the empty
  and single-dot tokens are dropped, and the others are appended to the parts.
\<close>

theorem parseParts_input_step:
  "parseParts (paths @ [part]) f =
     (case parseParts paths f of (drv, rt, ps) \<Rightarrow>
      (let part' = (if AltSeparator f \<noteq> ''''
                    then strings_Replace part (AltSeparator f) (Separator f) else part) in
       case SplitRoot f part' of (pdrive, proot, remainder) \<Rightarrow>
         (let toks = survivors (separator_char f) remainder in
          if pdrive \<noteq> '''' then (pdrive, proot, [pdrive @ proot] @ toks)
          else if proot \<noteq> '''' then (drv, proot, [drv @ proot] @ toks)
          else (drv, rt, ps @ toks))))"
proof -
  obtain drv rt ps where acc: "parseParts paths f = (drv, rt, ps)"
    by (metis prod_cases3)
  obtain pdrive proot remainder where
    sr: "SplitRoot f (if AltSeparator f \<noteq> ''''
           then strings_Replace part (AltSeparator f) (Separator f) else part) =
         (pdrive, proot, remainder)"
    by (metis prod_cases3)
  show ?thesis
    unfolding parseParts_snoc acc prod.case Let_def sr
    by (rule parseParts_step_survivors[OF sr])
qed

theorem parseParts_input_step_witness:
  "parseParts ([''a'', ''/b''] @ [''c//./d/'']) Posix = ('''', ''/'', [''/'', ''b'', ''c'', ''d''])"
  by (subst parseParts_input_step) code_simp

section \<open>The drive of a later input\<close>

text \<open>
  C2, as the specification states it: when a later input has a root but no drive, and an
  earlier input gave a drive, the result has the later input's empty drive. It fails on the
  Windows inputs \<open>Z:/a\<close>, \<open>/b\<close>: the second input has a root and no drive, and the
  result keeps the drive \<open>Z:\<close> of the first (the branch commented "if only root is given,
  replace parts and keep drive").
\<close>

theorem parseParts_drive_counterexample:
  "fst (SplitRoot Windows (strings_Replace ''/b'' ''/'' [BSL])) = '''' \<and>
   fst (snd (SplitRoot Windows (strings_Replace ''/b'' ''/'' [BSL]))) = [BSL] \<and>
   fst (parseParts [''Z:/a''] Windows) = ''Z:'' \<and>
   fst (parseParts [''Z:/a'', ''/b''] Windows) = ''Z:''"
  by code_simp

text \<open>
  C2, amended. The drive of the result changes only at an input that has a drive of its own:
  after one more input, the drive is that input's drive if it is not empty, and the drive
  accumulated before otherwise, whether or not the input has a root.
\<close>

theorem parseParts_drive:
  "fst (parseParts (paths @ [part]) f) =
     (let part' = (if AltSeparator f \<noteq> ''''
                   then strings_Replace part (AltSeparator f) (Separator f) else part);
          pdrive = fst (SplitRoot f part')
      in if pdrive \<noteq> '''' then pdrive else fst (parseParts paths f))"
proof -
  obtain drv rt ps where acc: "parseParts paths f = (drv, rt, ps)"
    by (metis prod_cases3)
  obtain pdrive proot remainder where
    sr: "SplitRoot f (if AltSeparator f \<noteq> ''''
           then strings_Replace part (AltSeparator f) (Separator f) else part) =
         (pdrive, proot, remainder)"
    by (metis prod_cases3)
  show ?thesis
    unfolding parseParts_snoc acc Let_def sr parseParts_step_survivors[OF sr]
    by simp
qed

theorem parseParts_drive_witness:
  "fst (parseParts ([''Z:/a''] @ [''/b'']) Windows) = ''Z:''"
  by (subst parseParts_drive) code_simp

section \<open>The forms of a drive\<close>

lemma posix_SplitRoot_no_drive: "fst (SplitRoot Posix path) = ''''"
  by (simp add: posix_SplitRoot_def Let_def)

text \<open>
  C3. The drive is empty, a drive letter and a colon, or a UNC or extended-length prefix.
  The POSIX flavor gives no drive (lemma above). The Windows flavor breaks the claim on the
  input of two separators followed by \<open>ab\<close>: \<^verbatim>\<open>runesIndexOffset\<close> returns \<open>offset - 1\<close>
  instead of \<open>-1\<close> when the separator does not occur, the UNC branch is entered, and the
  drive is the single separator.
\<close>

theorem SplitRoot_drive_slip:
  "SplitRoot Windows [BSL, BSL, CHR ''a'', CHR ''b''] = ([BSL], [BSL], ''ab'') \<and>
   runesIndexOffset [BSL, BSL, CHR ''a'', CHR ''b''] BSL 2 = 1 \<and>
   \<not> drive_form (fst (SplitRoot Windows [BSL, BSL, CHR ''a'', CHR ''b'']))"
  by code_simp

section \<open>Patterns without parts\<close>

lemma chars_in_tokens:
  "x \<in> set s \<Longrightarrow> x \<noteq> c \<Longrightarrow> \<exists>t \<in> set (tokens_of c s). x \<in> set t"
proof (induction s)
  case Nil
  then show ?case by simp
next
  case (Cons y ys)
  show ?case
  proof (cases "y = c")
    case True
    with Cons show ?thesis by auto
  next
    case False
    obtain t ts where tt: "tokens_of c ys = t # ts"
      using tokens_of_not_Nil[of c ys] by (cases "tokens_of c ys") auto
    show ?thesis
    proof (cases "x = y")
      case True
      with False tt show ?thesis by simp
    next
      case ne: False
      with Cons have "\<exists>t \<in> set (tokens_of c ys). x \<in> set t" by simp
      with False tt show ?thesis by auto
    qed
  qed
qed

lemma survivors_Nil_chars:
  assumes "survivors c s = []" and "x \<in> set s"
  shows "x = c \<or> x = CHR ''.''"
proof (rule ccontr)
  assume n: "\<not> (x = c \<or> x = CHR ''.'')"
  then obtain t where t: "t \<in> set (tokens_of c s)" "x \<in> set t"
    using chars_in_tokens[OF assms(2), of c] by auto
  from assms(1) t(1) have "t = '''' \<or> t = ''.''"
    by (auto simp: survivors_def filter_empty_conv)
  with t(2) n show False by auto
qed

lemma windows_SplitRoot_rest_unanchored:
  "windows_SplitRoot_rest pre runes a b c = ('''', '''', r) \<Longrightarrow> r = runes \<and> pre = ''''"
  by (auto simp: windows_SplitRoot_rest_def Let_def split: if_splits)

lemma windows_SplitRoot_unanchored:
  assumes "windows_SplitRoot x = ('''', '''', r)"
  shows "r = x"
proof (cases "strings_HasPrefix x [BSL, BSL, CHR ''?'', BSL]")
  case True
  then have "x \<noteq> []" by (auto simp: strings_HasPrefix_def)
  with True assms show ?thesis
    by (auto simp: windows_SplitRoot_def Let_def split: if_splits dest!: windows_SplitRoot_rest_unanchored)
next
  case False
  with assms show ?thesis
    by (auto simp: windows_SplitRoot_def Let_def split: if_splits dest!: windows_SplitRoot_rest_unanchored)
qed

lemma strings_Replace_char:
  "strings_Replace s [a] [b] = map (\<lambda>x. if x = a then b else x) s"
  by (induction s) (simp_all add: strings_Replace.simps)

lemma toLower_fixed: "toLower_char CHR ''/'' = CHR ''/''" "toLower_char BSL = BSL" "toLower_char CHR ''.'' = CHR ''.''"
  by (simp_all add: toLower_char_def)

lemma zero_parts_Casefold:
  assumes "snd (snd (parseParts [s] f)) = []"
  shows "Casefold f s = s"
proof (cases f)
  case Posix
  then show ?thesis by simp
next
  case Windows
  obtain pd pr rem where sr: "SplitRoot f (if AltSeparator f \<noteq> ''''
             then strings_Replace s (AltSeparator f) (Separator f) else s) = (pd, pr, rem)"
    by (metis prod_cases3)
  have pp: "parseParts [s] f = parseParts_step f ('''', '''', []) s"
    by (simp add: parseParts_def)
  from assms have z: "pd = '''' \<and> pr = '''' \<and> survivors (separator_char f) rem = []"
    unfolding pp parseParts_step_survivors[OF sr] by (auto split: if_splits)
  from sr Windows z have rem: "rem = strings_Replace s ''/'' [BSL]"
    by (auto dest: windows_SplitRoot_unanchored)
  have "\<forall>x \<in> set s. toLower_char x = x"
  proof
    fix x assume xs: "x \<in> set s"
    then have "(if x = CHR ''/'' then BSL else x) \<in> set rem"
      unfolding rem strings_Replace_char by auto
    from survivors_Nil_chars[OF conjunct2[OF conjunct2[OF z]] this] Windows
    have "x = CHR ''/'' \<or> x = BSL \<or> x = CHR ''.''"
      by (auto simp: separator_char_def split: if_splits)
    then show "toLower_char x = x" using toLower_fixed by auto
  qed
  then show ?thesis using Windows by (simp add: strings_ToLower_def map_idI)
qed

text \<open>
  C10. For every path, \<open>Match\<close> returns false when the pattern parses to no parts, as the
  empty string and the single dot do, whatever the parts of the path are: the glob matcher
  \<open>glob\<close> is not consulted. Case folding does not change such a pattern.
\<close>

theorem Match_zero_parts:
  assumes "length (snd (snd (parseParts [pattern] (flavor p)))) = 0"
  shows "Match glob p pattern = Some False"
proof -
  from assms have "Casefold (flavor p) pattern = pattern"
    by (simp add: zero_parts_Casefold)
  with assms show ?thesis
    by (auto simp: Match_def Let_def split: prod.splits)
qed

theorem Match_zero_parts_witness:
  "length (snd (snd (parseParts [''.''] Windows))) = 0 \<and>
   Match (\<lambda>pat name. Some True) \<lparr>parts = [''A'', ''b''], drive = [], root = [], flavor = Windows\<rparr> ''.'' = Some False"
proof -
  have h: "length (snd (snd (parseParts [''.''] (flavor \<lparr>parts = [''A'', ''b''], drive = [], root = [], flavor = Windows\<rparr>)))) = 0"
    by code_simp
  have h': "length (snd (snd (parseParts [''.''] Windows))) = 0"
    by code_simp
  from Match_zero_parts[OF h] h' show ?thesis by simp
qed

section \<open>Relative paths\<close>

lemma CasefoldParts_map: "CasefoldParts f ps = map (Casefold f) ps"
  by (cases f) (simp_all add: map_idI)

lemma casefoldComp_loop_nth:
  "casefoldComp_loop tp ops i l = (\<forall>k. i \<le> k \<and> k < l \<longrightarrow> tp ! k = ops ! k)"
proof (induction tp ops i l rule: casefoldComp_loop.induct)
  case (1 tp ops i l)
  show ?case
  proof (cases "i < l")
    case False
    then have "casefoldComp_loop tp ops i l" by (subst casefoldComp_loop.simps) simp
    moreover from False have "\<forall>k. i \<le> k \<and> k < l \<longrightarrow> tp ! k = ops ! k" by auto
    ultimately show ?thesis by simp
  next
    case True
    show ?thesis
    proof (cases "tp ! i = ops ! i")
      case False
      with True have "\<not> casefoldComp_loop tp ops i l" by (subst casefoldComp_loop.simps) simp
      moreover from False True have "\<not> (\<forall>k. i \<le> k \<and> k < l \<longrightarrow> tp ! k = ops ! k)" by auto
      ultimately show ?thesis by simp
    next
      case eq: True
      have a: "(\<forall>k. i \<le> k \<and> k < l \<longrightarrow> tp ! k = ops ! k) = (\<forall>k. Suc i \<le> k \<and> k < l \<longrightarrow> tp ! k = ops ! k)"
        using eq by (metis Suc_leI le_eq_less_or_eq Suc_leD)
      have "casefoldComp_loop tp ops i l = casefoldComp_loop tp ops (Suc i) l"
        using eq True by (subst casefoldComp_loop.simps) simp
      with 1[OF True] eq a show ?thesis by simp
    qed
  qed
qed

lemma prefix_take: "prefix xs ys = (length xs \<le> length ys \<and> take (length xs) ys = xs)"
  by (metis append_eq_conv_conj append_take_drop_id prefix_def prefix_length_le)


lemma casefoldComp_prefix:
  "casefoldComp f tp ops = prefix (CasefoldParts f ops) (CasefoldParts f tp)"
proof (cases "length tp < length ops")
  case True
  then have "\<not> prefix (map (Casefold f) ops) (map (Casefold f) tp)"
    using prefix_length_le[of "map (Casefold f) ops" "map (Casefold f) tp"] by auto
  with True show ?thesis
    by (simp add: casefoldComp_def CasefoldParts_map)
next
  case False
  then have le: "length ops \<le> length tp" by simp
  have "casefoldComp f tp ops =
        (\<forall>k < length ops. map (Casefold f) (take (length ops) tp) ! k = map (Casefold f) ops ! k)"
  proof -
    have "casefoldComp f tp ops =
          casefoldComp_loop (map (Casefold f) (take (length ops) tp)) (map (Casefold f) ops) 0 (length ops)"
      using le unfolding casefoldComp_def CasefoldParts_map Let_def by simp
    then show ?thesis unfolding casefoldComp_loop_nth by simp
  qed
  also have "\<dots> = (map (Casefold f) (take (length ops) tp) = map (Casefold f) ops)"
  proof
    assume a: "\<forall>k < length ops. map (Casefold f) (take (length ops) tp) ! k = map (Casefold f) ops ! k"
    show "map (Casefold f) (take (length ops) tp) = map (Casefold f) ops"
      by (rule nth_equalityI) (use le a in simp_all)
  next
    assume "map (Casefold f) (take (length ops) tp) = map (Casefold f) ops"
    then show "\<forall>k < length ops. map (Casefold f) (take (length ops) tp) ! k = map (Casefold f) ops ! k"
      by simp
  qed
  also have "\<dots> = prefix (map (Casefold f) ops) (map (Casefold f) tp)"
    using le by (simp add: prefix_take take_map)
  finally show ?thesis by (simp add: CasefoldParts_map)
qed

text \<open>
  C4, as the specification states it, keeps the root of the result exactly when the matched
  prefix is the anchor alone. The code keeps it when \<^verbatim>\<open>toAbsParts\<close> has exactly one element.
  On the POSIX path \<open>/a\<close> relative to \<open>/\<close> the matched prefix is the anchor alone (the
  parts of \<open>/\<close> are the anchor, its sequence is the empty drive and the root) and the root
  is cleared; on the Windows path \<open>c:/foo\<close> relative to \<open>./c:\<close> the other path has no
  anchor at all, and the root is kept.
\<close>

theorem RelativeTo_root_counterexample:
  "parts (newPurePathWithFlavor Posix [''/'']) = [''/''] \<and>
   absParts (newPurePathWithFlavor Posix [''/'']) = ['''', ''/''] \<and>
   RelativeTo (newPurePathWithFlavor Posix [''/a'']) [''/''] =
     Inr \<lparr>parts = [''a''], drive = '''', root = '''', flavor = Posix\<rparr> \<and>
   drive (newPurePathWithFlavor Windows [''./c:'']) = '''' \<and>
   root (newPurePathWithFlavor Windows [''./c:'']) = '''' \<and>
   root (newPurePathWithFlavor Windows [''c:/foo'']) = [BSL] \<and>
   RelativeTo (newPurePathWithFlavor Windows [''c:/foo'']) [''./c:''] =
     Inr \<lparr>parts = [BSL] # [''foo''], drive = '''', root = [BSL], flavor = Windows\<rparr>"
  by code_simp

text \<open>
  C4, amended. With at least one other path given, \<open>RelativeTo\<close> fails with the
  not-relative error unless the other path's sequence (drive and root as two leading
  elements when it has a root, its parts otherwise), case-folded by the flavor, is a prefix
  of this path's sequence, and also when the other path is empty while this path has a drive
  or a root. On success the result has no drive, the rest of this path's sequence as parts,
  and no root unless the other path's sequence has exactly one element, in which case the
  root of this path is kept.
\<close>

theorem RelativeTo_prefix:
  assumes "others \<noteq> []"
  shows "RelativeTo p others =
     (let a = absParts p; t = absParts (newPurePathWithFlavor (flavor p) others) in
      if \<not> prefix (CasefoldParts (flavor p) t) (CasefoldParts (flavor p) a) \<or>
         (t = [] \<and> (drive p \<noteq> '''' \<or> root p \<noteq> ''''))
      then Inl ErrNotRelative
      else Inr \<lparr>parts = drop (length t) a, drive = '''',
                root = (if length t = 1 then root p else ''''), flavor = flavor p\<rparr>)"
proof -
  let ?a = "absParts p"
  let ?t = "absParts (newPurePathWithFlavor (flavor p) others)"
  have e: "(?t = []) = (length ?t = 0)" by simp
  have pn: "?t = [] \<Longrightarrow> prefix (CasefoldParts (flavor p) ?t) (CasefoldParts (flavor p) ?a)"
    by (simp add: CasefoldParts_map)
  from assms have "length others \<noteq> 0" by simp
  then show ?thesis
    unfolding RelativeTo_def Let_def casefoldComp_prefix newPurePathFromParts_def
    using pn by (cases "?t = []") auto
qed

theorem RelativeTo_prefix_witness:
  "[''/a''] \<noteq> [] \<and>
   RelativeTo (newPurePathWithFlavor Posix [''/a/b'']) [''/a''] =
     Inr \<lparr>parts = [''b''], drive = '''', root = '''', flavor = Posix\<rparr> \<and>
   RelativeTo (newPurePathWithFlavor Posix [''/a/b'']) [''/c''] = Inl ErrNotRelative \<and>
   RelativeTo (newPurePathWithFlavor Windows [''C:/Foo/bar'']) [''c:''] =
     Inr \<lparr>parts = [BSL] # [''Foo'', ''bar''], drive = '''', root = [BSL], flavor = Windows\<rparr>"
proof -
  have h: "[''/a''] \<noteq> ([] :: string list)" "[''/c''] \<noteq> ([] :: string list)" "[''c:''] \<noteq> ([] :: string list)" by simp_all
  show ?thesis
    unfolding RelativeTo_prefix[OF h(1)] RelativeTo_prefix[OF h(2)] RelativeTo_prefix[OF h(3)]
    by code_simp
qed

section \<open>Parsing the string of a parsed path\<close>









































section \<open>The receiver of Match\<close>

lemma length_slice_load:
  "offset s + len s \<le> length (h (array s)) \<Longrightarrow> length (slice_load h s) = len s"
  by (simp add: slice_load_def)

lemma slice_load_store:
  "slice_load (slice_store h s i v) s = (slice_load h s)[i := v]"
  by (simp add: slice_load_def slice_store_def drop_update_swap take_update_swap)

lemma slice_store_length:
  "length (slice_store h s i v (array s)) = length (h (array s))"
  by (simp add: slice_store_def)

lemma CasefoldParts_loop_load:
  "offset s + len s \<le> length (h (array s)) \<Longrightarrow> i + k = len s \<Longrightarrow>
   slice_load (CasefoldParts_loop h s i k) s =
     take i (slice_load h s) @ map strings_ToLower (drop i (slice_load h s))"
proof (induction k arbitrary: h i)
  case 0
  then show ?case by (simp add: length_slice_load)
next
  case (Suc k)
  let ?L = "slice_load h s"
  let ?v = "strings_ToLower (?L ! i)"
  let ?h = "slice_store h s i ?v"
  have len: "length ?L = len s" using Suc.prems(1) by (rule length_slice_load)
  have ilt: "i < length ?L" using Suc.prems(2) len by simp
  have wf: "offset s + len s \<le> length (?h (array s))"
    using Suc.prems(1) by (simp add: slice_store_length)
  have "slice_load (CasefoldParts_loop ?h s (Suc i) k) s =
        take (Suc i) (slice_load ?h s) @ map strings_ToLower (drop (Suc i) (slice_load ?h s))"
    using Suc.IH[of ?h "Suc i"] wf Suc.prems(2) by simp
  also have "slice_load ?h s = ?L[i := ?v]" by (rule slice_load_store)
  also have "take (Suc i) (?L[i := ?v]) = take i ?L @ [?v]"
    using ilt by (simp add: take_Suc_conv_app_nth)
  also have "drop (Suc i) (?L[i := ?v]) = drop (Suc i) ?L" by simp
  also have "(take i ?L @ [?v]) @ map strings_ToLower (drop (Suc i) ?L) =
             take i ?L @ map strings_ToLower (drop i ?L)"
    using ilt by (simp add: Cons_nth_drop_Suc[symmetric])
  finally show ?case by simp
qed

lemma CasefoldParts_st_load:
  assumes "offset s + len s \<le> length (h (array s))"
  shows "slice_load (snd (CasefoldParts_st f h s)) (fst (CasefoldParts_st f h s)) =
         CasefoldParts f (slice_load h s)"
proof (cases f)
  case Posix
  then show ?thesis by simp
next
  case Windows
  then show ?thesis using CasefoldParts_loop_load[of s h 0 "len s"] assms by simp
qed

lemma Match_st_result:
  assumes "offset (partsS p) + len (partsS p) \<le> length (h (array (partsS p)))"
  shows "fst (Match_st glob h p pattern) = Match glob (load h p) pattern"
  using CasefoldParts_st_load[of "partsS p" h "flavorS p"] assms
  by (auto simp: Match_st_def Match_def load_def Let_def split: prod.splits)

lemma Match_st_Posix_store: "flavorS p = Posix \<Longrightarrow> snd (Match_st glob h p pattern) = h"
  by (simp add: Match_st_def Let_def split: prod.splits)

text \<open>
  C5. No operation of the path algebra changes drive, root or parts of its receiver. The
  store model gives the result of the value model (\<open>Match_st_result\<close>) and the POSIX flavor
  leaves the store alone (\<open>Match_st_Posix_store\<close>), but with the Windows flavor \<open>Match\<close>
  breaks the claim: \<^verbatim>\<open>CasefoldParts\<close> lower-cases the receiver's own backing array. After
  \<open>Match\<close> of the pattern \<open>bar\<close> on the Windows path \<open>Foo/Bar\<close>, which returns true, the
  parts of the receiver are \<open>foo\<close> and \<open>bar\<close>.
\<close>

theorem Match_mutates_receiver:
  "load fooStore fooPath = newPurePathWithFlavor Windows [''Foo/Bar''] \<and>
   parts (load fooStore fooPath) = [''Foo'', ''Bar''] \<and>
   fst (Match_st literal_glob fooStore fooPath ''bar'') = Some True \<and>
   parts (load (snd (Match_st literal_glob fooStore fooPath ''bar'')) fooPath) = [''foo'', ''bar'']"
  by code_simp

section \<open>Errors of ResolveAll\<close>

lemma fs_componentPath: "fs (componentPath p i) = fs p"
  by (simp add: componentPath_def copyPathWithPaths_def)

lemma IsSymlink_no_lstater:
  "lstater (fs c) = None \<Longrightarrow> IsSymlink c = Inl (ErrDoesNotImplement (fsName (fs c)) ''afero.Lstater'')"
  by (simp add: IsSymlink_def Lstat_def doesNotImplementErr_def)

lemma Readlink_no_linkReader:
  "linkReader (fs c) = None \<Longrightarrow> Readlink c = Inl (ErrDoesNotImplement (fsName (fs c)) ''afero.LinkReader'')"
  by (simp add: Readlink_def doesNotImplementErr_def)

lemma resolveIfSymlink_cases:
  "IsSymlink c = Inr False \<Longrightarrow> resolveIfSymlink c = (c, False, None)"
  "IsSymlink c = Inl e \<Longrightarrow> resolveIfSymlink c = (c, False, Some e)"
  "IsSymlink c = Inr True \<Longrightarrow> Readlink c = Inl e \<Longrightarrow> resolveIfSymlink c = (c, True, Some e)"
  by (simp_all add: resolveIfSymlink_def)

lemma resolveAllHelper_loop_first_error:
  assumes "\<forall>j. i \<le> j \<and> j < t \<longrightarrow> IsSymlink (componentPath p j) = Inr False"
    and "i \<le> t" and "t < i + k"
    and "resolveIfSymlink (componentPath p t) = (q, b, Some e)"
  shows "resolveAllHelper_loop p i k = ReturnErr e"
  using assms
proof (induction k arbitrary: i)
  case 0
  then show ?case by simp
next
  case (Suc k)
  show ?case
  proof (cases "i = t")
    case True
    with Suc.prems(4) show ?thesis by (simp add: Let_def)
  next
    case False
    with Suc.prems have lt: "i < t" by simp
    with Suc.prems(1) have "IsSymlink (componentPath p i) = Inr False" by simp
    then have r: "resolveIfSymlink (componentPath p i) = (componentPath p i, False, None)"
      by (rule resolveIfSymlink_cases(1))
    have "resolveAllHelper_loop p (Suc i) k = ReturnErr e"
      using Suc.prems lt by (intro Suc.IH) auto
    with r show ?thesis by (simp add: Let_def)
  qed
qed

lemma resolveAllHelper_first_error_gen:
  assumes "k < length (parts (purePath p))"
    and "\<forall>j<k. IsSymlink (componentPath p j) = Inr False"
    and "resolveIfSymlink (componentPath p k) = (q, b, Some e)"
  shows "resolveAllHelper (Suc n) p = Some (p, Some e)"
proof -
  have "resolveAllHelper_loop p 0 (length (parts (purePath p))) = ReturnErr e"
    using assms by (intro resolveAllHelper_loop_first_error[where t = k and q = q and b = b]) auto
  then show ?thesis by simp
qed

lemma resolveIfSymlink_link:
  "IsSymlink c = Inr True \<Longrightarrow> Readlink c = Inr resolved \<Longrightarrow>
   resolveIfSymlink c = (resolved, True, None)"
  by (simp add: resolveIfSymlink_def)

lemma resolveAllHelper_loop_first_link:
  assumes "\<forall>j. i \<le> j \<and> j < t \<longrightarrow> IsSymlink (componentPath p j) = Inr False"
    and "i \<le> t" and "t < i + k"
    and "resolveIfSymlink (componentPath p t) = (resolved, True, None)"
  shows "resolveAllHelper_loop p i k =
           Recurse (if IsAbsolute (purePath resolved)
                    then Path_Join resolved (drop (t + 1) (parts (purePath p)))
                    else Path_Join (Path_JoinPath (Path_Parent (componentPath p t)) [resolved])
                           (drop (t + 1) (parts (purePath p))))"
  using assms
proof (induction k arbitrary: i)
  case 0
  then show ?case by simp
next
  case (Suc k)
  show ?case
  proof (cases "i = t")
    case True
    with Suc.prems(4) show ?thesis by (simp add: Let_def)
  next
    case False
    with Suc.prems have lt: "i < t" by simp
    with Suc.prems(1) have "IsSymlink (componentPath p i) = Inr False" by simp
    then have r: "resolveIfSymlink (componentPath p i) = (componentPath p i, False, None)"
      by (rule resolveIfSymlink_cases(1))
    have "resolveAllHelper_loop p (Suc i) k =
           Recurse (if IsAbsolute (purePath resolved)
                    then Path_Join resolved (drop (t + 1) (parts (purePath p)))
                    else Path_Join (Path_JoinPath (Path_Parent (componentPath p t)) [resolved])
                           (drop (t + 1) (parts (purePath p))))"
      using Suc.prems lt by (intro Suc.IH) auto
    with r show ?thesis by (simp add: Let_def)
  qed
qed

lemma resolveAllHelper_loop_no_link:
  assumes "\<forall>j. i \<le> j \<and> j < i + k \<longrightarrow> IsSymlink (componentPath p j) = Inr False"
  shows "resolveAllHelper_loop p i k = LoopEnd"
  using assms
proof (induction k arbitrary: i)
  case 0
  then show ?case by simp
next
  case (Suc k)
  then have "IsSymlink (componentPath p i) = Inr False" by simp
  then have r: "resolveIfSymlink (componentPath p i) = (componentPath p i, False, None)"
    by (rule resolveIfSymlink_cases(1))
  have "resolveAllHelper_loop p (Suc i) k = LoopEnd"
    using Suc.prems by (intro Suc.IH) auto
  with r show ?case by (simp add: Let_def)
qed

lemma resolveAllHelper_follow:
  assumes "k < length (parts (purePath p))"
    and "\<forall>j<k. IsSymlink (componentPath p j) = Inr False"
    and "IsSymlink (componentPath p k) = Inr True"
    and "Readlink (componentPath p k) = Inr resolved"
  shows "resolveAllHelper (Suc n) p =
           resolveAllHelper n
             (if IsAbsolute (purePath resolved)
              then Path_Join resolved (drop (k + 1) (parts (purePath p)))
              else Path_Join (Path_JoinPath (Path_Parent (componentPath p k)) [resolved])
                     (drop (k + 1) (parts (purePath p))))"
proof -
  have r: "resolveIfSymlink (componentPath p k) = (resolved, True, None)"
    using assms(3,4) by (rule resolveIfSymlink_link)
  have "resolveAllHelper_loop p 0 (length (parts (purePath p))) =
           Recurse (if IsAbsolute (purePath resolved)
                    then Path_Join resolved (drop (k + 1) (parts (purePath p)))
                    else Path_Join (Path_JoinPath (Path_Parent (componentPath p k)) [resolved])
                           (drop (k + 1) (parts (purePath p))))"
    using assms(1,2) r by (intro resolveAllHelper_loop_first_link) auto
  then show ?thesis by simp
qed

lemma resolveAllHelper_no_link:
  assumes "\<forall>j<length (parts (purePath p)). IsSymlink (componentPath p j) = Inr False"
  shows "resolveAllHelper (Suc n) p = Some (p, None)"
proof -
  have "resolveAllHelper_loop p 0 (length (parts (purePath p))) = LoopEnd"
    using assms by (intro resolveAllHelper_loop_no_link) auto
  then show ?thesis by simp
qed

lemma fs_examplePath: "fs (examplePath fsys paths) = fsys"
  by (simp add: examplePath_def newPathWithFlavor_def split: prod.splits)

text \<open>
  C6, as the specification states it: \<open>ResolveAll\<close> fails with the capability error when the
  filesystem lacks lstat or readlink, and a path returned with an error is the original
  path. On a filesystem with neither capability the path \<open>.\<close>, which has no parts, is
  returned without error; on a filesystem with lstat and without readlink the path \<open>a/b\<close>,
  which has no link, is returned without error; and when the link \<open>a\<close> to \<open>c\<close> has been
  followed and lstat of \<open>c\<close> fails, the path returned with the error is \<open>c/b\<close>, not the
  original \<open>a/b\<close>.
\<close>

theorem ResolveAll_counterexample:
  "lstater noLinkFs = None \<and> linkReader noLinkFs = None \<and>
   result_string (ResolveAll 1 (examplePath noLinkFs [''.''])) = Some (''.'', None) \<and>
   linkReader lstatOnlyFs = None \<and>
   result_string (ResolveAll 1 (examplePath lstatOnlyFs [''a/b''])) = Some (''a/b'', None) \<and>
   result_string (ResolveAll 2 (examplePath linkFs [''a/b''])) =
     Some (''c/b'', Some (ErrIO ''permission denied''))"
  by (simp add: noLinkFs_def lstatOnlyFs_def, code_simp)

text \<open>
  C6, amended. The capabilities are asked for when they are needed. \<open>ResolveAll\<close> fails with
  the capability error for lstat when the filesystem lacks lstat and the path has a part,
  and with the capability error for readlink when the filesystem lacks readlink and a prefix
  of the path is found to be a link, no earlier prefix being one. When the first prefix that
  is a link or fails gives an error, from lstat or from readlink, that error is returned;
  in these three cases no link has been followed, and the path returned with the error is
  the original path. When the first link is read without error, the error of the whole is
  the error of resolving the path that continues at the link's target, so the first error
  met along the links is the one returned, and a resolution that ends without error is the
  result of the whole. A path without links and without errors is returned as it is.
\<close>

theorem ResolveAll_errors:
  "(parts (purePath p) \<noteq> [] \<and> lstater (fs p) = None \<longrightarrow>
      ResolveAll (Suc n) p =
        Some (p, Some (ErrDoesNotImplement (fsName (fs p)) ''afero.Lstater''))) \<and>
   (k < length (parts (purePath p)) \<and> (\<forall>j<k. IsSymlink (componentPath p j) = Inr False) \<and>
      IsSymlink (componentPath p k) = Inr True \<and> linkReader (fs p) = None \<longrightarrow>
      ResolveAll (Suc n) p =
        Some (p, Some (ErrDoesNotImplement (fsName (fs p)) ''afero.LinkReader''))) \<and>
   (k < length (parts (purePath p)) \<and> (\<forall>j<k. IsSymlink (componentPath p j) = Inr False) \<and>
      (IsSymlink (componentPath p k) = Inl e \<or>
       IsSymlink (componentPath p k) = Inr True \<and> Readlink (componentPath p k) = Inl e) \<longrightarrow>
      ResolveAll (Suc n) p = Some (p, Some e)) \<and>
   (k < length (parts (purePath p)) \<and> (\<forall>j<k. IsSymlink (componentPath p j) = Inr False) \<and>
      IsSymlink (componentPath p k) = Inr True \<and> Readlink (componentPath p k) = Inr resolved \<longrightarrow>
      (let next = (if IsAbsolute (purePath resolved)
                   then Path_Join resolved (drop (k + 1) (parts (purePath p)))
                   else Path_Join (Path_JoinPath (Path_Parent (componentPath p k)) [resolved])
                          (drop (k + 1) (parts (purePath p))))
       in map_option snd (ResolveAll (Suc n) p) = map_option snd (ResolveAll n next) \<and>
          (map_option snd (ResolveAll n next) = Some None \<longrightarrow>
             ResolveAll (Suc n) p = ResolveAll n next))) \<and>
   ((\<forall>j<length (parts (purePath p)). IsSymlink (componentPath p j) = Inr False) \<longrightarrow>
      ResolveAll (Suc n) p = Some (p, None))"
proof (intro conjI impI)
  assume a: "parts (purePath p) \<noteq> [] \<and> lstater (fs p) = None"
  then have "IsSymlink (componentPath p 0) =
               Inl (ErrDoesNotImplement (fsName (fs p)) ''afero.Lstater'')"
    using IsSymlink_no_lstater[of "componentPath p 0"] by (simp add: fs_componentPath)
  then have "resolveIfSymlink (componentPath p 0) =
               (componentPath p 0, False, Some (ErrDoesNotImplement (fsName (fs p)) ''afero.Lstater''))"
    by (rule resolveIfSymlink_cases(2))
  with a show "ResolveAll (Suc n) p =
        Some (p, Some (ErrDoesNotImplement (fsName (fs p)) ''afero.Lstater''))"
    unfolding ResolveAll_def by (intro resolveAllHelper_first_error_gen[where k = 0]) auto
next
  assume a: "k < length (parts (purePath p)) \<and> (\<forall>j<k. IsSymlink (componentPath p j) = Inr False) \<and>
      IsSymlink (componentPath p k) = Inr True \<and> linkReader (fs p) = None"
  then have "Readlink (componentPath p k) =
               Inl (ErrDoesNotImplement (fsName (fs p)) ''afero.LinkReader'')"
    using Readlink_no_linkReader[of "componentPath p k"] by (simp add: fs_componentPath)
  with a have "resolveIfSymlink (componentPath p k) =
               (componentPath p k, True, Some (ErrDoesNotImplement (fsName (fs p)) ''afero.LinkReader''))"
    by (intro resolveIfSymlink_cases(3)) auto
  with a show "ResolveAll (Suc n) p =
        Some (p, Some (ErrDoesNotImplement (fsName (fs p)) ''afero.LinkReader''))"
    unfolding ResolveAll_def by (intro resolveAllHelper_first_error_gen[where k = k]) auto
next
  assume a: "k < length (parts (purePath p)) \<and> (\<forall>j<k. IsSymlink (componentPath p j) = Inr False) \<and>
      (IsSymlink (componentPath p k) = Inl e \<or>
       IsSymlink (componentPath p k) = Inr True \<and> Readlink (componentPath p k) = Inl e)"
  then have "\<exists>b. resolveIfSymlink (componentPath p k) = (componentPath p k, b, Some e)"
    using resolveIfSymlink_cases(2,3)[of "componentPath p k" e] by auto
  then obtain b where "resolveIfSymlink (componentPath p k) = (componentPath p k, b, Some e)" ..
  with a show "ResolveAll (Suc n) p = Some (p, Some e)"
    unfolding ResolveAll_def by (intro resolveAllHelper_first_error_gen[where k = k]) auto
next
  assume a: "k < length (parts (purePath p)) \<and> (\<forall>j<k. IsSymlink (componentPath p j) = Inr False) \<and>
      IsSymlink (componentPath p k) = Inr True \<and> Readlink (componentPath p k) = Inr resolved"
  then have "resolveAllHelper (Suc n) p =
           resolveAllHelper n
             (if IsAbsolute (purePath resolved)
              then Path_Join resolved (drop (k + 1) (parts (purePath p)))
              else Path_Join (Path_JoinPath (Path_Parent (componentPath p k)) [resolved])
                     (drop (k + 1) (parts (purePath p))))"
    by (intro resolveAllHelper_follow) auto
  then show "let next = (if IsAbsolute (purePath resolved)
                   then Path_Join resolved (drop (k + 1) (parts (purePath p)))
                   else Path_Join (Path_JoinPath (Path_Parent (componentPath p k)) [resolved])
                          (drop (k + 1) (parts (purePath p))))
       in map_option snd (ResolveAll (Suc n) p) = map_option snd (ResolveAll n next) \<and>
          (map_option snd (ResolveAll n next) = Some None \<longrightarrow>
             ResolveAll (Suc n) p = ResolveAll n next)"
    unfolding ResolveAll_def Let_def by simp
next
  assume "\<forall>j<length (parts (purePath p)). IsSymlink (componentPath p j) = Inr False"
  then show "ResolveAll (Suc n) p = Some (p, None)"
    unfolding ResolveAll_def by (rule resolveAllHelper_no_link)
qed

theorem ResolveAll_errors_witness:
  "ResolveAll (Suc 0) (examplePath noLinkFs [''a/b'']) =
     Some (examplePath noLinkFs [''a/b''],
           Some (ErrDoesNotImplement ''MemMapFs'' ''afero.Lstater'')) \<and>
   IsSymlink (componentPath (examplePath lstatOnlyFs [''x/a/b'']) 0) = Inr False \<and>
   IsSymlink (componentPath (examplePath lstatOnlyFs [''x/a/b'']) (Suc 0)) = Inr True \<and>
   ResolveAll (Suc 0) (examplePath lstatOnlyFs [''x/a/b'']) =
     Some (examplePath lstatOnlyFs [''x/a/b''],
           Some (ErrDoesNotImplement ''LstatFs'' ''afero.LinkReader'')) \<and>
   IsSymlink (componentPath (examplePath ioErrorFs [''x/a/b'']) (Suc 0)) =
     Inl (ErrIO ''permission denied'') \<and>
   ResolveAll (Suc 0) (examplePath ioErrorFs [''x/a/b'']) =
     Some (examplePath ioErrorFs [''x/a/b''], Some (ErrIO ''permission denied'')) \<and>
   IsSymlink (componentPath (examplePath linkFs [''a/b'']) 0) = Inr True \<and>
   map_option snd (ResolveAll (Suc (Suc 0)) (examplePath linkFs [''a/b''])) =
     Some (Some (ErrIO ''permission denied'')) \<and>
   result_string (ResolveAll (Suc (Suc 0)) (examplePath goodLinkFs [''a/b''])) =
     Some (''c/b'', None) \<and>
   ResolveAll (Suc 0) (examplePath lstatOnlyFs [''a/b'']) =
     Some (examplePath lstatOnlyFs [''a/b''], None)"
proof -
  let ?p1 = "examplePath noLinkFs [''a/b'']"
  let ?p2 = "examplePath lstatOnlyFs [''x/a/b'']"
  let ?p3 = "examplePath ioErrorFs [''x/a/b'']"
  let ?p4 = "examplePath linkFs [''a/b'']"
  let ?p5 = "examplePath goodLinkFs [''a/b'']"
  let ?p6 = "examplePath lstatOnlyFs [''a/b'']"
  let ?r4 = "copyPathWithPaths (componentPath ?p4 0) [''c'']"
  let ?r5 = "copyPathWithPaths (componentPath ?p5 0) [''c'']"
  let ?n4 = "if IsAbsolute (purePath ?r4)
             then Path_Join ?r4 (drop (0 + 1) (parts (purePath ?p4)))
             else Path_Join (Path_JoinPath (Path_Parent (componentPath ?p4 0)) [?r4])
                    (drop (0 + 1) (parts (purePath ?p4)))"
  let ?n5 = "if IsAbsolute (purePath ?r5)
             then Path_Join ?r5 (drop (0 + 1) (parts (purePath ?p5)))
             else Path_Join (Path_JoinPath (Path_Parent (componentPath ?p5 0)) [?r5])
                    (drop (0 + 1) (parts (purePath ?p5)))"
  have a1: "parts (purePath ?p1) \<noteq> []" by code_simp
  have b1: "lstater (fs ?p1) = None" "fsName (fs ?p1) = ''MemMapFs''"
    by (simp_all add: fs_examplePath noLinkFs_def)
  have a2: "Suc 0 < length (parts (purePath ?p2))" by code_simp
  have b2: "linkReader (fs ?p2) = None" "fsName (fs ?p2) = ''LstatFs''"
    by (simp_all add: fs_examplePath lstatOnlyFs_def)
  have c2: "IsSymlink (componentPath ?p2 0) = Inr False" by code_simp
  have d2: "IsSymlink (componentPath ?p2 (Suc 0)) = Inr True" by code_simp
  have a3: "Suc 0 < length (parts (purePath ?p3))" by code_simp
  have c3: "IsSymlink (componentPath ?p3 0) = Inr False" by code_simp
  have d3: "IsSymlink (componentPath ?p3 (Suc 0)) = Inl (ErrIO ''permission denied'')" by code_simp
  have a4: "0 < length (parts (purePath ?p4))" by code_simp
  have c4: "IsSymlink (componentPath ?p4 0) = Inr True" by code_simp
  have s4: "String (purePath (componentPath ?p4 0)) = ''a''" by code_simp
  have l4: "linkReader (fs (componentPath ?p4 0)) =
              Some (\<lambda>name. if name = ''a'' then Inr ''c'' else Inl (ErrIO ''invalid argument''))"
    by (simp add: fs_componentPath fs_examplePath linkFs_def)
  have d4: "Readlink (componentPath ?p4 0) = Inr ?r4"
    by (simp add: Readlink_def l4 s4)
  have e4: "map_option snd (ResolveAll (Suc 0) ?n4) = Some (Some (ErrIO ''permission denied''))"
    by code_simp
  have a5: "0 < length (parts (purePath ?p5))" by code_simp
  have c5: "IsSymlink (componentPath ?p5 0) = Inr True" by code_simp
  have s5: "String (purePath (componentPath ?p5 0)) = ''a''" by code_simp
  have l5: "linkReader (fs (componentPath ?p5 0)) =
              Some (\<lambda>name. if name = ''a'' then Inr ''c'' else Inl (ErrIO ''invalid argument''))"
    by (simp add: fs_componentPath fs_examplePath goodLinkFs_def)
  have d5: "Readlink (componentPath ?p5 0) = Inr ?r5"
    by (simp add: Readlink_def l5 s5)
  have e5: "map_option snd (ResolveAll (Suc 0) ?n5) = Some None" by code_simp
  have f5: "result_string (ResolveAll (Suc 0) ?n5) = Some (''c/b'', None)" by code_simp
  have a6: "length (parts (purePath ?p6)) = Suc (Suc 0)" by code_simp
  have c6: "IsSymlink (componentPath ?p6 0) = Inr False" by code_simp
  have d6: "IsSymlink (componentPath ?p6 (Suc 0)) = Inr False" by code_simp
  have all6: "\<forall>j<length (parts (purePath ?p6)). IsSymlink (componentPath ?p6 j) = Inr False"
    unfolding a6 using c6 d6 by (simp add: less_Suc_eq)
  have r1: "ResolveAll (Suc 0) ?p1 =
              Some (?p1, Some (ErrDoesNotImplement ''MemMapFs'' ''afero.Lstater''))"
    using ResolveAll_errors[of ?p1 0 0] a1 b1 by simp
  have r2: "ResolveAll (Suc 0) ?p2 =
              Some (?p2, Some (ErrDoesNotImplement ''LstatFs'' ''afero.LinkReader''))"
    using ResolveAll_errors[of ?p2 0 "Suc 0"] a2 b2 c2 d2 by simp
  have r3: "ResolveAll (Suc 0) ?p3 = Some (?p3, Some (ErrIO ''permission denied''))"
    using ResolveAll_errors[of ?p3 0 "Suc 0" "ErrIO ''permission denied''"] a3 c3 d3 by simp
  have r4: "map_option snd (ResolveAll (Suc (Suc 0)) ?p4) = map_option snd (ResolveAll (Suc 0) ?n4)"
    using ResolveAll_errors[of ?p4 "Suc 0" 0 _ ?r4] a4 c4 d4 unfolding Let_def by blast
  have r5: "ResolveAll (Suc (Suc 0)) ?p5 = ResolveAll (Suc 0) ?n5"
    using ResolveAll_errors[of ?p5 "Suc 0" 0 _ ?r5] a5 c5 d5 e5 unfolding Let_def by blast
  have r6: "ResolveAll (Suc 0) ?p6 = Some (?p6, None)"
    using ResolveAll_errors[of ?p6 0] all6 by blast
  from r1 c2 d2 r2 d3 r3 c4 r4[unfolded e4] f5[folded r5] r6 show ?thesis by (intro conjI)
qed

section \<open>The latest entry of a directory\<close>

lemma GetLatest_empty: "ReadDir p = Inr [] \<Longrightarrow> GetLatest p = Inl ErrDirectoryEmpty"
  by (simp add: GetLatest_def)

text \<open>
  C8. \<open>GetLatest\<close> fails with the empty-directory error when the listing is empty (lemma
  above) and otherwise returns the entry with the greatest modification time. The loop runs
  while \<^verbatim>\<open>i < len(files)-1\<close> and never looks at the last entry: in the directory \<open>d\<close> with
  \<open>a\<close>, \<open>b\<close>, \<open>c\<close> modified at 1, 3, 5 it returns \<open>d/b\<close>, which is not the newest.
\<close>

theorem GetLatest_skips_last:
  "map_sum id (map Path_String) (ReadDir dirPath) = Inr [''d/a'', ''d/b'', ''d/c''] \<and>
   Mtime (Path_Join dirPath [''a'']) = (1, None) \<and>
   Mtime (Path_Join dirPath [''b'']) = (3, None) \<and>
   Mtime (Path_Join dirPath [''c'']) = (5, None) \<and>
   map_sum id Path_String (GetLatest dirPath) = Inr ''d/b'' \<and>
   \<not> newest_of [Path_Join dirPath [''a''], Path_Join dirPath [''b''], Path_Join dirPath [''c'']]
        (Path_Join dirPath [''b''])"
  by code_simp

section \<open>Stem and suffix\<close>

text \<open>
  C9. For every path, the stem followed by the suffix is the name: both cut the name at the
  same last dot, or the suffix is empty and the stem is the whole name.
\<close>

theorem Stem_Suffix_Name: "Stem p @ Suffix p = Name p"
  by (simp add: Stem_def Suffix_def Let_def)

theorem Stem_Suffix_Name_witness:
  "Stem \<lparr>parts = [''/'', ''a'', ''b.tar.gz''], drive = [], root = ''/'', flavor = Posix\<rparr> @
     Suffix \<lparr>parts = [''/'', ''a'', ''b.tar.gz''], drive = [], root = ''/'', flavor = Posix\<rparr> =
   ''b.tar.gz'' \<and>
   Suffix \<lparr>parts = [''/'', ''a'', ''b.tar.gz''], drive = [], root = ''/'', flavor = Posix\<rparr> =
   ''.gz'' \<and>
   Stem \<lparr>parts = [''.hgrc''], drive = [], root = [], flavor = Posix\<rparr> @
     Suffix \<lparr>parts = [''.hgrc''], drive = [], root = [], flavor = Posix\<rparr> = ''.hgrc''"
proof -
  have n1: "Name \<lparr>parts = [''/'', ''a'', ''b.tar.gz''], drive = [], root = ''/'', flavor = Posix\<rparr> =
            ''b.tar.gz''"
    by (simp add: Name_def)
  have n2: "Name \<lparr>parts = [''.hgrc''], drive = [], root = [], flavor = Posix\<rparr> = ''.hgrc''"
    by (simp add: Name_def)
  have s1: "Suffix \<lparr>parts = [''/'', ''a'', ''b.tar.gz''], drive = [], root = ''/'', flavor = Posix\<rparr> =
            ''.gz''"
    by (simp add: Suffix_def n1 Let_def)
  show ?thesis
    using Stem_Suffix_Name[of "\<lparr>parts = [''/'', ''a'', ''b.tar.gz''], drive = [], root = ''/'', flavor = Posix\<rparr>"]
      Stem_Suffix_Name[of "\<lparr>parts = [''.hgrc''], drive = [], root = [], flavor = Posix\<rparr>"]
    by (simp only: n1 n2 s1 simp_thms)
qed

end
